theory Spec2Isabelle
  imports Main "HOL-Library.Char_ord" "HOL-Library.List_Lexorder" "HOL-Library.Sublist"
begin

section \<open>Data model of cfgnorm.py\<close>

text \<open>
  A symbol is a Python \<open>str\<close>, an alternative is a tuple of symbols, and the
  right-hand side of a nonterminal is a Python \<open>set\<close> of alternatives. A Python set is
  modelled by a list without repetitions, read as the set in one of its iteration orders;
  wherever the source iterates over a set, the model iterates over that list. The rule
  mapping is an \<open>OrderedDict\<close>, modelled by an association list in insertion order.
\<close>

type_synonym symbol = string
type_synonym alt = "symbol list"
type_synonym rule_map = "(symbol \<times> alt list) list"

record grammar =
  rules :: rule_map
  start :: symbol

text \<open>
  The exceptions the source can raise: \<open>ValueError\<close> with its message (raised by
  \<open>from_string\<close>), \<open>KeyError\<close> with the missing key (\<open>None\<close> when the key is Python's
  \<open>None\<close>), and \<open>AttributeError\<close> (a method call on an object that has no such method).
\<close>

datatype error = ValueError string | KeyError "symbol option" | AttributeError

fun fold_err :: "('a \<Rightarrow> 's \<Rightarrow> error + 's) \<Rightarrow> 'a list \<Rightarrow> 's \<Rightarrow> error + 's" where
  "fold_err f [] s = Inr s"
| "fold_err f (x # xs) s = (case f x s of Inl e \<Rightarrow> Inl e | Inr s' \<Rightarrow> fold_err f xs s')"

subsection \<open>Python sets as lists\<close>

definition set_add :: "'a \<Rightarrow> 'a list \<Rightarrow> 'a list" where
  "set_add x xs = (if x \<in> set xs then xs else xs @ [x])"

definition set_discard :: "'a \<Rightarrow> 'a list \<Rightarrow> 'a list" where
  "set_discard x xs = removeAll x xs"

definition set_update :: "'a list \<Rightarrow> 'a list \<Rightarrow> 'a list" where
  "set_update xs ys = foldl (\<lambda>acc y. set_add y acc) xs ys"

definition set_eq :: "'a list \<Rightarrow> 'a list \<Rightarrow> bool" where
  "set_eq xs ys = (list_all (\<lambda>x. x \<in> set ys) xs \<and> list_all (\<lambda>y. y \<in> set xs) ys)"

subsection \<open>Dictionaries\<close>

text \<open>
  \<open>od_get\<close> is \<open>d[k]\<close> on an \<open>OrderedDict\<close> (a missing key raises \<open>KeyError\<close>),
  \<open>od_set\<close> is \<open>d[k] = v\<close> (an existing key keeps its position, a new key goes last),
  \<open>od_modify\<close> is \<open>d[k].m(...)\<close> for a method \<open>m\<close> that mutates the set stored under
  \<open>k\<close>, and \<open>dd_add\<close> is \<open>d[k].add(v)\<close> on a \<open>defaultdict(set)\<close>, which creates the
  key with an empty set when it is missing.
\<close>

definition od_get :: "rule_map \<Rightarrow> symbol \<Rightarrow> error + alt list" where
  "od_get d k = (case map_of d k of None \<Rightarrow> Inl (KeyError (Some k)) | Some v \<Rightarrow> Inr v)"

definition od_put :: "symbol \<Rightarrow> (alt list \<Rightarrow> alt list) \<Rightarrow> rule_map \<Rightarrow> rule_map" where
  "od_put k g d = map (\<lambda>(k', vs). if k' = k then (k', g vs) else (k', vs)) d"

definition od_set :: "symbol \<Rightarrow> alt list \<Rightarrow> rule_map \<Rightarrow> rule_map" where
  "od_set k v d = (if k \<in> set (map fst d) then od_put k (\<lambda>_. v) d else d @ [(k, v)])"

definition od_modify :: "symbol \<Rightarrow> (alt list \<Rightarrow> alt list) \<Rightarrow> rule_map \<Rightarrow> error + rule_map" where
  "od_modify k g d =
     (if k \<in> set (map fst d) then Inr (od_put k g d) else Inl (KeyError (Some k)))"

definition dd_add :: "symbol \<Rightarrow> alt \<Rightarrow> rule_map \<Rightarrow> rule_map" where
  "dd_add k v d =
     (if k \<in> set (map fst d) then od_put k (set_add v) d else d @ [(k, [v])])"

subsection \<open>The constructor and the derived alphabets\<close>

text \<open>
  \<open>Grammar.__init__\<close> copies the mapping and moves the start symbol to the front with
  \<open>move_to_end(start, last=False)\<close>, which raises \<open>KeyError\<close> when \<open>start\<close> is
  not a key.
\<close>

definition Grammar :: "rule_map \<Rightarrow> symbol \<Rightarrow> error + grammar" where
  "Grammar rs s =
     (case map_of rs s of
        None \<Rightarrow> Inl (KeyError (Some s))
      | Some v \<Rightarrow> Inr \<lparr>rules = (s, v) # filter (\<lambda>(k, _). k \<noteq> s) rs, start = s\<rparr>)"

definition nonterminals :: "grammar \<Rightarrow> symbol list" where
  "nonterminals G = map fst (rules G)"

definition terminals :: "grammar \<Rightarrow> symbol list" where
  "terminals G =
     remdups (filter (\<lambda>sym. sym \<notin> set (map fst (rules G)))
                (concat (concat (map snd (rules G)))))"

definition stringof :: "alt \<Rightarrow> symbol list \<Rightarrow> bool" where
  "stringof s alphabet = list_all (\<lambda>sym. sym \<in> set alphabet) s"

text \<open>The alternatives stored under a key, as a set, and the empty set for a missing key.\<close>

definition alts_of :: "grammar \<Rightarrow> symbol \<Rightarrow> alt set" where
  "alts_of G k = (case map_of (rules G) k of None \<Rightarrow> {} | Some v \<Rightarrow> set v)"

section \<open>Epsilon-rule elimination\<close>

text \<open>
  \<open>combinations xs r\<close> is \<open>itertools.combinations\<close>: the subsequences of length \<open>r\<close>
  in lexicographic order of positions. \<open>proper_powerset\<close> chains them for
  \<open>r = 0, ..., len(s) - 1\<close>, so the full sequence itself is left out.
\<close>

fun combinations :: "'a list \<Rightarrow> nat \<Rightarrow> 'a list list" where
  "combinations xs 0 = [[]]"
| "combinations [] (Suc r) = []"
| "combinations (x # xs) (Suc r) = map ((#) x) (combinations xs r) @ combinations xs (Suc r)"

definition proper_powerset :: "'a list \<Rightarrow> 'a list list" where
  "proper_powerset s = concat (map (combinations s) [0..<length s])"

text \<open>
  \<open>_nullable_nonterminals\<close>: the loop copies \<open>new_nullable\<close> into \<open>nullable\<close> and then
  runs one pass over the rules, which adds to \<open>new_nullable\<close> in place (so a later rule
  of the same pass already sees the additions); it stops when a pass adds nothing.
\<close>

definition nullable_step :: "symbol list \<Rightarrow> symbol \<times> alt list \<Rightarrow> symbol list" where
  "nullable_step nn r =
     (case r of (lhs, rhs) \<Rightarrow>
        if list_ex (\<lambda>opt. stringof opt nn) rhs then set_add lhs nn else nn)"

definition nullable_pass :: "rule_map \<Rightarrow> symbol list \<Rightarrow> symbol list" where
  "nullable_pass rs new_nullable = foldl nullable_step new_nullable rs"

function nullable_loop :: "rule_map \<Rightarrow> symbol list \<Rightarrow> symbol list \<Rightarrow> symbol list" where
  "nullable_loop rs nullable new_nullable =
     (if set_eq new_nullable nullable then nullable
      else nullable_loop rs new_nullable (nullable_pass rs new_nullable))"
  by pat_completeness auto

lemma set_eq_sets: "set_eq xs ys \<longleftrightarrow> set xs = set ys"
  by (auto simp: set_eq_def list_all_iff)

lemma set_set_add: "set (set_add x xs) = insert x (set xs)"
  by (auto simp: set_add_def)

lemma nullable_step_mono: "set nn \<subseteq> set (nullable_step nn r)"
  by (cases r) (auto simp: nullable_step_def set_set_add)

lemma nullable_step_bound: "set (nullable_step nn r) \<subseteq> insert (fst r) (set nn)"
  by (cases r) (auto simp: nullable_step_def set_set_add)

lemma nullable_pass_mono: "set nn \<subseteq> set (nullable_pass rs nn)"
proof (induction rs arbitrary: nn)
  case Nil
  show ?case by (simp add: nullable_pass_def)
next
  case (Cons r rs)
  have "set nn \<subseteq> set (nullable_step nn r)" by (rule nullable_step_mono)
  also have "\<dots> \<subseteq> set (nullable_pass rs (nullable_step nn r))" by (rule Cons.IH)
  finally show ?case by (simp add: nullable_pass_def)
qed

lemma nullable_pass_bound: "set (nullable_pass rs nn) \<subseteq> set nn \<union> set (map fst rs)"
proof (induction rs arbitrary: nn)
  case Nil
  show ?case by (simp add: nullable_pass_def)
next
  case (Cons r rs)
  have "set (nullable_pass rs (nullable_step nn r))
          \<subseteq> set (nullable_step nn r) \<union> set (map fst rs)" by (rule Cons.IH)
  also have "\<dots> \<subseteq> set nn \<union> set (map fst (r # rs))"
    using nullable_step_bound[of nn r] by auto
  finally show ?case by (simp add: nullable_pass_def)
qed

termination nullable_loop
proof (relation "measure (\<lambda>(rs, a, b).
          2 * card (set (map fst rs) - set b) + (if set a = set b then 0 else 1))",
       goal_cases)
  case 1
  show ?case by simp
next
  case (2 rs nullable new_nullable)
  let ?p = "nullable_pass rs new_nullable"
  let ?K = "set (map fst rs)"
  from 2 have ne: "set nullable \<noteq> set new_nullable" by (auto simp: set_eq_sets)
  show ?case
  proof (cases "set ?p = set new_nullable")
    case True
    with ne show ?thesis by simp
  next
    case False
    with nullable_pass_mono[of new_nullable rs] nullable_pass_bound[of rs new_nullable]
    obtain x where x: "x \<in> ?K" "x \<notin> set new_nullable" "x \<in> set ?p" by blast
    have "?K - set ?p \<subset> ?K - set new_nullable"
      using x nullable_pass_mono[of new_nullable rs] by auto
    then have "card (?K - set ?p) < card (?K - set new_nullable)"
      by (intro psubset_card_mono) auto
    then show ?thesis using ne by simp
  qed
qed

definition nullable_nonterminals :: "grammar \<Rightarrow> symbol list" where
  "nullable_nonterminals G =
     nullable_loop (rules G)
       (map fst (filter (\<lambda>(lhs, rhs). list_ex (\<lambda>opt. opt = []) rhs) (rules G))) []"

text \<open>
  \<open>without_epsilon_rules\<close>: \<open>new_rules\<close> is a deep copy of the rules with the empty
  alternative discarded everywhere; every alternative then contributes its variants with
  some nullable positions dropped. A nullable start symbol gets a new start symbol, named
  by appending a prime, whose entry is assigned without looking at the existing keys.
\<close>

definition drop_nullable :: "symbol list \<Rightarrow> alt \<Rightarrow> nat list \<Rightarrow> alt" where
  "drop_nullable nullable opt kept =
     map snd (filter (\<lambda>(i, sym). if sym \<in> set nullable then i \<in> set kept else True)
                (enumerate 0 opt))"

definition epsilon_variants :: "symbol list \<Rightarrow> symbol \<Rightarrow> alt \<Rightarrow> rule_map \<Rightarrow> error + rule_map" where
  "epsilon_variants nullable lhs opt new_rules =
     (let indices = map fst (filter (\<lambda>(i, sym). sym \<in> set nullable) (enumerate 0 opt))
      in fold_err (\<lambda>kept nr.
            let new_opt = drop_nullable nullable opt kept
            in if new_opt \<noteq> [] \<and> new_opt \<noteq> [lhs] then od_modify lhs (set_add new_opt) nr
               else Inr nr)
           (proper_powerset indices) new_rules)"

definition prime :: string where
  "prime = [CHR 0x27]"

definition without_epsilon_rules :: "grammar \<Rightarrow> error + grammar" where
  "without_epsilon_rules G =
     (let nullable = nullable_nonterminals G;
          new_rules = map (\<lambda>(lhs, rhs). (lhs, set_discard [] rhs)) (rules G)
      in case fold_err (\<lambda>(lhs, rhs). fold_err (epsilon_variants nullable lhs) rhs)
                (rules G) new_rules of
           Inl e \<Rightarrow> Inl e
         | Inr new_rules \<Rightarrow>
             if start G \<in> set nullable
             then Grammar (od_set (start G @ prime) [[], [start G]] new_rules) (start G @ prime)
             else Grammar new_rules (start G))"

section \<open>Unit-rule elimination\<close>

text \<open>
  \<open>_unit_pairs\<close>: the direct pairs \<open>(lhs, opt[0])\<close> of the one-symbol alternatives
  whose symbol is a nonterminal, closed under composition. Each round copies the pairs
  found so far and adds \<open>(x, z)\<close> for all \<open>(x, y)\<close> and \<open>(y, z)\<close> of the copy.
\<close>

type_synonym unit_pair = "symbol \<times> symbol"

definition direct_unit_pairs :: "grammar \<Rightarrow> unit_pair list" where
  "direct_unit_pairs G =
     remdups (concat (map (\<lambda>(lhs, rhs).
        concat (map (\<lambda>opt. case opt of
                       [y] \<Rightarrow> if y \<in> set (nonterminals G) then [(lhs, y)] else []
                     | _ \<Rightarrow> []) rhs)) (rules G)))"

definition unit_pass :: "unit_pair list \<Rightarrow> unit_pair list \<Rightarrow> unit_pair list" where
  "unit_pass unit_pairs new_unit_pairs =
     foldl (\<lambda>new (x, y).
        foldl (\<lambda>new (yy, z). if y = yy then set_add (x, z) new else new) new unit_pairs)
       new_unit_pairs unit_pairs"

function unit_loop :: "unit_pair list \<Rightarrow> unit_pair list \<Rightarrow> unit_pair list" where
  "unit_loop unit_pairs new_unit_pairs =
     (if set_eq unit_pairs new_unit_pairs then unit_pairs
      else unit_loop new_unit_pairs (unit_pass new_unit_pairs new_unit_pairs))"
  by pat_completeness auto

lemma set_foldl_cond_add:
  "set (foldl (\<lambda>acc a. if P a then set_add (g a) acc else acc) acc xs)
     = set acc \<union> g ` {a \<in> set xs. P a}"
  by (induction xs arbitrary: acc) (auto simp: set_set_add)

lemma set_unit_inner:
  "set (foldl (\<lambda>new (yy, z). if y = yy then set_add (x, z) new else new) new ps)
     = set new \<union> {(x, z) | z. (y, z) \<in> set ps}"
proof -
  have eq: "(\<lambda>new (yy, z). if y = yy then set_add (x, z) new else new)
          = (\<lambda>acc a. if y = fst a then set_add (x, snd a) acc else acc)"
    by (auto simp: fun_eq_iff)
  show ?thesis unfolding eq set_foldl_cond_add by force
qed

lemma set_unit_outer:
  "set (foldl (\<lambda>new (x, y).
          foldl (\<lambda>new (yy, z). if y = yy then set_add (x, z) new else new) new ps) new qs)
     = set new \<union> {(x, z) | x y z. (x, y) \<in> set qs \<and> (y, z) \<in> set ps}"
proof (induction qs arbitrary: new)
  case Nil
  show ?case by simp
next
  case (Cons q qs)
  obtain x y where q: "q = (x, y)" by (cases q)
  show ?case unfolding q by (simp add: Cons.IH set_unit_inner) blast
qed

lemma set_unit_pass:
  "set (unit_pass ps new)
     = set new \<union> {(x, z) | x y z. (x, y) \<in> set ps \<and> (y, z) \<in> set ps}"
  unfolding unit_pass_def by (rule set_unit_outer)

termination unit_loop
proof (relation "measure (\<lambda>(a, b).
          2 * card ((fst ` set b) \<times> (snd ` set b) - set b) + (if set a = set b then 0 else 1))",
       goal_cases)
  case 1
  show ?case by simp
next
  case (2 unit_pairs new_unit_pairs)
  let ?b = "new_unit_pairs"
  let ?p = "unit_pass ?b ?b"
  from 2 have ne: "set unit_pairs \<noteq> set ?b" by (auto simp: set_eq_sets)
  have mono: "set ?b \<subseteq> set ?p" by (auto simp: set_unit_pass)
  have f: "fst ` set ?p = fst ` set ?b" by (force simp: set_unit_pass)
  have s: "snd ` set ?p = snd ` set ?b" by (force simp: set_unit_pass)
  show ?case
  proof (cases "set ?p = set ?b")
    case True
    with ne show ?thesis by simp
  next
    case False
    with mono obtain x where x: "x \<in> set ?p" "x \<notin> set ?b" by blast
    have "x \<in> (fst ` set ?p) \<times> (snd ` set ?p)" using x(1) by (auto simp: mem_Times_iff)
    then have xin: "x \<in> (fst ` set ?b) \<times> (snd ` set ?b)" by (simp only: f s)
    have "(fst ` set ?b) \<times> (snd ` set ?b) - set ?p \<subset> (fst ` set ?b) \<times> (snd ` set ?b) - set ?b"
      using x xin mono by blast
    then have "card ((fst ` set ?b) \<times> (snd ` set ?b) - set ?p)
             < card ((fst ` set ?b) \<times> (snd ` set ?b) - set ?b)"
      by (intro psubset_card_mono) auto
    then show ?thesis using ne unfolding in_measure prod.case f s by simp
  qed
qed

definition unit_pairs :: "grammar \<Rightarrow> unit_pair list" where
  "unit_pairs G = unit_loop [] (direct_unit_pairs G)"

text \<open>
  \<open>without_unit_rules\<close> iterates twice over the set of unit pairs: first
  \<open>new_rules[x].discard((y,))\<close>, then \<open>new_rules[x] |= new_rules[y]\<close>. The order in
  which a Python set yields its elements is not fixed, so the two iteration orders are
  parameters of \<open>without_unit_rules_in\<close>; \<open>without_unit_rules\<close> takes the order of the
  model's list for both.
\<close>

definition absorb :: "unit_pair \<Rightarrow> rule_map \<Rightarrow> error + rule_map" where
  "absorb p new_rules =
     (case p of (x, y) \<Rightarrow>
        (case od_get new_rules x of
           Inl e \<Rightarrow> Inl e
         | Inr ax \<Rightarrow>
             (case od_get new_rules y of
                Inl e \<Rightarrow> Inl e
              | Inr ay \<Rightarrow> Inr (od_set x (set_update ax ay) new_rules))))"

definition without_unit_rules_in ::
    "unit_pair list \<Rightarrow> unit_pair list \<Rightarrow> grammar \<Rightarrow> error + grammar" where
  "without_unit_rules_in order1 order2 G =
     (case fold_err (\<lambda>(x, y). od_modify x (set_discard [y])) order1 (rules G) of
        Inl e \<Rightarrow> Inl e
      | Inr new_rules \<Rightarrow>
          (case fold_err absorb order2 new_rules of
             Inl e \<Rightarrow> Inl e
           | Inr new_rules \<Rightarrow> Grammar new_rules (start G)))"

definition without_unit_rules :: "grammar \<Rightarrow> error + grammar" where
  "without_unit_rules G = without_unit_rules_in (unit_pairs G) (unit_pairs G) G"

section \<open>Useless-symbol elimination\<close>

text \<open>
  \<open>_reachable_symbols\<close>: starting from the start symbol, each round copies the symbols
  found so far and, for every copied symbol that is a nonterminal, adds the symbols of all
  its alternatives.
\<close>

definition reachable_step :: "rule_map \<Rightarrow> symbol list \<Rightarrow> symbol \<Rightarrow> symbol list" where
  "reachable_step rs new_reachable X =
     (case map_of rs X of
        None \<Rightarrow> new_reachable
      | Some rhs \<Rightarrow> foldl set_update new_reachable rhs)"

definition reachable_pass :: "rule_map \<Rightarrow> symbol list \<Rightarrow> symbol list \<Rightarrow> symbol list" where
  "reachable_pass rs reachable new_reachable = foldl (reachable_step rs) new_reachable reachable"

function reachable_loop :: "rule_map \<Rightarrow> symbol list \<Rightarrow> symbol list \<Rightarrow> symbol list" where
  "reachable_loop rs reachable new_reachable =
     (if set_eq reachable new_reachable then reachable
      else reachable_loop rs new_reachable (reachable_pass rs new_reachable new_reachable))"
  by pat_completeness auto

definition rhs_symbols :: "rule_map \<Rightarrow> symbol set" where
  "rhs_symbols rs = set (concat (concat (map snd rs)))"

lemma set_set_update: "set (set_update xs ys) = set xs \<union> set ys"
  unfolding set_update_def by (induction ys arbitrary: xs) (auto simp: set_set_add)

lemma set_foldl_set_update: "set (foldl set_update acc xss) = set acc \<union> set (concat xss)"
  by (induction xss arbitrary: acc) (auto simp: set_set_update)

lemma reachable_step_mono: "set new \<subseteq> set (reachable_step rs new X)"
  by (auto simp: reachable_step_def set_foldl_set_update split: option.splits)

lemma reachable_step_bound: "set (reachable_step rs new X) \<subseteq> set new \<union> rhs_symbols rs"
proof (cases "map_of rs X")
  case None
  then show ?thesis by (simp add: reachable_step_def)
next
  case (Some rhs)
  then have "(X, rhs) \<in> set rs" by (rule map_of_SomeD)
  then have "set (concat rhs) \<subseteq> rhs_symbols rs" by (force simp: rhs_symbols_def)
  with Some show ?thesis by (auto simp: reachable_step_def set_foldl_set_update)
qed

lemma reachable_pass_mono: "set new \<subseteq> set (reachable_pass rs xs new)"
proof (induction xs arbitrary: new)
  case Nil
  show ?case by (simp add: reachable_pass_def)
next
  case (Cons x xs)
  have "set new \<subseteq> set (reachable_step rs new x)" by (rule reachable_step_mono)
  also have "\<dots> \<subseteq> set (reachable_pass rs xs (reachable_step rs new x))" by (rule Cons.IH)
  finally show ?case by (simp add: reachable_pass_def)
qed

lemma reachable_pass_bound: "set (reachable_pass rs xs new) \<subseteq> set new \<union> rhs_symbols rs"
proof (induction xs arbitrary: new)
  case Nil
  show ?case by (simp add: reachable_pass_def)
next
  case (Cons x xs)
  have "set (reachable_pass rs xs (reachable_step rs new x))
          \<subseteq> set (reachable_step rs new x) \<union> rhs_symbols rs" by (rule Cons.IH)
  also have "\<dots> \<subseteq> set new \<union> rhs_symbols rs"
    using reachable_step_bound[of rs new x] by auto
  finally show ?case by (simp add: reachable_pass_def)
qed

termination reachable_loop
proof (relation "measure (\<lambda>(rs, a, b).
          2 * card (rhs_symbols rs - set b) + (if set a = set b then 0 else 1))",
       goal_cases)
  case 1
  show ?case by simp
next
  case (2 rs reachable new_reachable)
  let ?p = "reachable_pass rs new_reachable new_reachable"
  let ?U = "rhs_symbols rs"
  from 2 have ne: "set reachable \<noteq> set new_reachable" by (auto simp: set_eq_sets)
  have mono: "set new_reachable \<subseteq> set ?p" by (rule reachable_pass_mono)
  have bound: "set ?p \<subseteq> set new_reachable \<union> ?U" by (rule reachable_pass_bound)
  show ?case
  proof (cases "set ?p = set new_reachable")
    case True
    with ne show ?thesis by simp
  next
    case False
    with mono bound obtain x where x: "x \<in> ?U" "x \<notin> set new_reachable" "x \<in> set ?p"
      by blast
    have "?U - set ?p \<subset> ?U - set new_reachable" using x mono by blast
    then have "card (?U - set ?p) < card (?U - set new_reachable)"
      by (intro psubset_card_mono) (auto simp: rhs_symbols_def)
    then show ?thesis using ne by simp
  qed
qed

definition reachable_symbols :: "grammar \<Rightarrow> symbol list" where
  "reachable_symbols G = reachable_loop (rules G) [] [start G]"

text \<open>
  \<open>_productive_symbols\<close>: \<open>new_productive\<close> is bound to \<open>self.terminals\<close>, which the
  cached property builds as a \<open>frozenset\<close>, and is never rebound. A \<open>frozenset\<close> has no
  method \<open>add\<close>, so the statement \<open>new_productive.add(lhs)\<close> raises \<open>AttributeError\<close>
  the first time it is reached, that is, at the first alternative all of whose symbols
  are in \<open>productive\<close>. A pass that reaches no such alternative leaves \<open>new_productive\<close>
  as it was.
\<close>

definition frozenset_add :: "symbol list \<Rightarrow> symbol \<Rightarrow> error + symbol list" where
  "frozenset_add fs x = Inl AttributeError"

definition productive_pass :: "rule_map \<Rightarrow> symbol list \<Rightarrow> symbol list \<Rightarrow> error + symbol list" where
  "productive_pass rs productive new_productive =
     fold_err (\<lambda>(lhs, rhs).
        fold_err (\<lambda>opt new. if stringof opt productive then frozenset_add new lhs else Inr new) rhs)
       rs new_productive"

function productive_loop :: "rule_map \<Rightarrow> symbol list \<Rightarrow> symbol list \<Rightarrow> error + symbol list" where
  "productive_loop rs productive new_productive =
     (if set_eq new_productive productive then Inr productive
      else (case productive_pass rs new_productive new_productive of
              Inl e \<Rightarrow> Inl e
            | Inr new \<Rightarrow> productive_loop rs new_productive new))"
  by pat_completeness auto

lemma productive_inner_same:
  "fold_err (\<lambda>opt new. if stringof opt productive then frozenset_add new lhs else Inr new) rhs new
     = Inr new' \<Longrightarrow> new' = new"
  by (induction rhs arbitrary: new) (auto simp: frozenset_add_def split: if_splits)

lemma productive_pass_same: "productive_pass rs productive new = Inr new' \<Longrightarrow> new' = new"
  unfolding productive_pass_def
proof (induction rs arbitrary: new)
  case Nil
  then show ?case by simp
next
  case (Cons r rs)
  obtain lhs rhs where r: "r = (lhs, rhs)" by (cases r)
  from Cons.prems obtain mid where
    m1: "fold_err (\<lambda>opt new. if stringof opt productive then frozenset_add new lhs else Inr new)
           rhs new = Inr mid"
    and m2: "fold_err (\<lambda>(lhs, rhs).
        fold_err (\<lambda>opt new. if stringof opt productive then frozenset_add new lhs else Inr new) rhs)
       rs mid = Inr new'"
    by (auto simp: r split: sum.splits)
  from m1 have "mid = new" by (rule productive_inner_same)
  with Cons.IH[OF m2] show ?case by simp
qed

termination productive_loop
proof (relation "measure (\<lambda>(rs, a, b). if set a = set b then 0 else 1)", goal_cases)
  case 1
  show ?case by simp
next
  case (2 rs productive new_productive new)
  from 2(1) have ne: "set productive \<noteq> set new_productive" by (auto simp: set_eq_sets)
  from 2(2) have "new = new_productive" by (rule productive_pass_same)
  with ne show ?case by simp
qed

definition productive_symbols :: "grammar \<Rightarrow> error + symbol list" where
  "productive_symbols G = productive_loop (rules G) [] (terminals G)"

text \<open>
  \<open>with_symbols\<close> fills a \<open>defaultdict\<close>: a key exists in the new mapping only once an
  alternative has been added under it. The result goes through the constructor.
\<close>

definition with_symbols :: "grammar \<Rightarrow> symbol list \<Rightarrow> error + grammar" where
  "with_symbols G symbols =
     Grammar
       (foldl (\<lambda>new_rules (lhs, rhs).
           if lhs \<notin> set symbols then new_rules
           else foldl (\<lambda>new_rules opt.
                   if stringof opt symbols then dd_add lhs opt new_rules else new_rules)
                  new_rules rhs)
          [] (rules G))
       (start G)"

definition with_productive_symbols :: "grammar \<Rightarrow> error + grammar" where
  "with_productive_symbols G =
     (case productive_symbols G of Inl e \<Rightarrow> Inl e | Inr symbols \<Rightarrow> with_symbols G symbols)"

definition with_reachable_symbols :: "grammar \<Rightarrow> error + grammar" where
  "with_reachable_symbols G = with_symbols G (reachable_symbols G)"

section \<open>Pair rules and unit terminals\<close>

text \<open>
  The decimal numeral of a natural number, as an f-string prints an \<open>int\<close>.
\<close>

fun string_of_nat :: "nat \<Rightarrow> string" where
  "string_of_nat n =
     (if n < 10 then [char_of (48 + n)]
      else string_of_nat (n div 10) @ [char_of (48 + n mod 10)])"

declare string_of_nat.simps [simp del]

definition aux_format :: "symbol \<Rightarrow> nat \<Rightarrow> nat \<Rightarrow> symbol" where
  "aux_format X i j = X @ ''_'' @ string_of_nat i @ '':'' @ string_of_nat j"

text \<open>
  \<open>with_pair_rules\<close>, the body of the loop over \<open>enumerate(rhs)\<close>: the inner loop runs
  over \<open>range(len(opt) - 2)\<close> (empty for fewer than three symbols), and the closing
  statement adds \<open>opt[-2:]\<close> (the last two symbols, or all of a shorter alternative)
  under \<open>aux_format(lhs, i, len(opt) - 3)\<close> when the alternative has more than two
  symbols and under \<open>lhs\<close> otherwise.
\<close>

definition pair_chain :: "symbol \<Rightarrow> nat \<Rightarrow> alt \<Rightarrow> rule_map \<Rightarrow> rule_map" where
  "pair_chain lhs i opt new_rules =
     (let n = length opt;
          new_rules = foldl (\<lambda>new_rules j.
                         dd_add (if j > 0 then aux_format lhs i j else lhs)
                           [opt ! j, aux_format lhs i (j + 1)] new_rules)
                       new_rules [0..<n - 2];
          aux_lhs = (if n > 2 then aux_format lhs i (n - 3) else lhs)
      in dd_add aux_lhs (drop (n - 2) opt) new_rules)"

definition with_pair_rules :: "grammar \<Rightarrow> error + grammar" where
  "with_pair_rules G =
     Grammar
       (foldl (\<lambda>new_rules (lhs, rhs).
           foldl (\<lambda>new_rules (i, opt). pair_chain lhs i opt new_rules) new_rules (enumerate 0 rhs))
          [] (rules G))
       (start G)"

text \<open>
  \<open>with_unit_terminals\<close>: one rule \<open>t# -> t\<close> per terminal, then every alternative of
  every rule is copied with each terminal replaced by its \<open>t#\<close>. The source applies the
  replacement to every alternative, whatever its length.
\<close>

definition aux_format_terminal :: "symbol \<Rightarrow> symbol" where
  "aux_format_terminal X = X @ ''#''"

definition with_unit_terminals :: "grammar \<Rightarrow> error + grammar" where
  "with_unit_terminals G =
     (let new_rules = foldl (\<lambda>new_rules t. dd_add (aux_format_terminal t) [t] new_rules)
                        [] (terminals G);
          new_rules = foldl (\<lambda>new_rules (lhs, rhs).
                         foldl (\<lambda>new_rules opt.
                            dd_add lhs
                              (map (\<lambda>sym. if sym \<in> set (terminals G)
                                           then aux_format_terminal sym else sym) opt)
                              new_rules)
                           new_rules rhs)
                        new_rules (rules G)
      in Grammar new_rules (start G))"

section \<open>Pipelines\<close>

text \<open>
  A \<open>Pipeline\<close> holds a list of actions and, when called, threads the grammar through
  them in order; an exception raised by an action ends the run. A pipeline is itself an
  action. The printing of the intermediate grammars is left out.
\<close>

type_synonym action = "grammar \<Rightarrow> error + grammar"

definition Pipeline :: "action list \<Rightarrow> action" where
  "Pipeline actions g = fold_err (\<lambda>a g. a g) actions g"

definition with_useful_symbols :: action where
  "with_useful_symbols =
     Pipeline [Pipeline [with_productive_symbols], Pipeline [with_reachable_symbols]]"

definition chomsky_normal_form :: action where
  "chomsky_normal_form =
     Pipeline [Pipeline [without_epsilon_rules], Pipeline [without_unit_rules],
               with_useful_symbols, Pipeline [with_pair_rules], Pipeline [with_unit_terminals]]"

section \<open>Textual notation\<close>

text \<open>
  The string methods the parser and the printer use. Characters are the code points below
  256; \<open>isspace\<close> lists those that Python's \<open>str.strip()\<close> removes. \<open>str_split\<close> is
  \<open>s.split(sep)\<close> and \<open>str_partition\<close> is \<open>s.partition(sep)\<close>, both scanning from the
  left; the source calls them with the literals \<open>";;"\<close>, \<open>"|"\<close> and \<open>"->"\<close> only.
\<close>

definition isspace :: "char \<Rightarrow> bool" where
  "isspace c \<longleftrightarrow>
     c \<in> set [CHR 0x09, CHR 0x0A, CHR 0x0B, CHR 0x0C, CHR 0x0D, CHR 0x1C, CHR 0x1D,
               CHR 0x1E, CHR 0x1F, CHR 0x20, CHR 0x85, CHR 0xA0]"

definition str_strip :: "string \<Rightarrow> string" where
  "str_strip s = rev (dropWhile isspace (rev (dropWhile isspace s)))"

function str_split_from :: "string \<Rightarrow> string \<Rightarrow> string \<Rightarrow> string list" where
  "str_split_from sep cur s =
     (if s = [] then [rev cur]
      else if sep \<noteq> [] \<and> prefix sep s then rev cur # str_split_from sep [] (drop (length sep) s)
      else str_split_from sep (hd s # cur) (tl s))"
  by pat_completeness auto
termination
  by (relation "measure (\<lambda>(sep, cur, s). length s)") auto

definition str_split :: "string \<Rightarrow> string \<Rightarrow> string list" where
  "str_split sep s = str_split_from sep [] s"

fun find_sep :: "string \<Rightarrow> string \<Rightarrow> string \<Rightarrow> (string \<times> string) option" where
  "find_sep sep cur [] = None"
| "find_sep sep cur (c # cs) =
     (if prefix sep (c # cs) then Some (rev cur, drop (length sep) (c # cs))
      else find_sep sep (c # cur) cs)"

definition str_partition :: "string \<Rightarrow> string \<Rightarrow> string \<times> string \<times> string" where
  "str_partition sep s =
     (case find_sep sep [] s of None \<Rightarrow> (s, [], []) | Some (a, b) \<Rightarrow> (a, sep, b))"

fun str_join :: "string \<Rightarrow> string list \<Rightarrow> string" where
  "str_join sep [] = []"
| "str_join sep [x] = x"
| "str_join sep (x # y # ys) = x @ sep @ str_join sep (y # ys)"

text \<open>
  \<open>from_string\<close>, the body of the loop over \<open>enumerate(s.split(";;"))\<close>, with the
  dictionary \<open>rules\<close> (here \<open>rmap\<close>) and the variable \<open>start\<close> (here \<open>first\<close>,
  \<open>None\<close> until the first record) as state. A
  record whose part after the first \<open>->\<close> is empty raises \<open>ValueError\<close>;
  \<open>partition\<close> returns an empty third component also when the separator is missing.
  Every character of an alternative becomes a symbol of its own (\<open>tuple(option)\<close>).
\<close>

definition no_arrow_message :: "nat \<Rightarrow> string \<Rightarrow> string" where
  "no_arrow_message i line =
     ''Line '' @ string_of_nat i @ '' <<< '' @ line @ '' >>> contains no ''
       @ [CHR 0x22] @ ''->'' @ [CHR 0x22]"

definition parse_record ::
    "nat \<times> string \<Rightarrow> rule_map \<times> symbol option \<Rightarrow> error + rule_map \<times> symbol option" where
  "parse_record il st =
     (case il of (i, raw) \<Rightarrow>
      (case st of (rmap, first) \<Rightarrow>
        (let line = str_strip raw in
         if line = [] then Inr (rmap, first)
         else (case str_partition ''->'' line of (lhs, _, rhs) \<Rightarrow>
           if rhs = [] then Inl (ValueError (no_arrow_message i line))
           else (let lhs = str_strip lhs;
                     rhs = str_strip rhs;
                     first = (case first of None \<Rightarrow> Some lhs | Some s \<Rightarrow> Some s);
                     rmap = foldl (\<lambda>rmap piece.
                               (let piece = str_strip piece;
                                    opt = (if piece = ''%'' then [] else map (\<lambda>c. [c]) piece)
                                in dd_add lhs opt rmap))
                              rmap (str_split ''|'' rhs)
                 in Inr (rmap, first))))))"

definition from_string :: "string \<Rightarrow> error + grammar" where
  "from_string s =
     (case fold_err parse_record (enumerate 0 (str_split '';;'' s)) ([], None) of
        Inl e \<Rightarrow> Inl e
      | Inr (rmap, first) \<Rightarrow>
          (case first of None \<Rightarrow> Inl (KeyError None) | Some s \<Rightarrow> Grammar rmap s))"

text \<open>
  \<open>to_string\<close>: the start rule first, then the other rules sorted by left-hand side;
  within a rule the alternatives are sorted, the symbols of an alternative are joined
  with a single space, and the empty alternative is printed as \<open>%\<close>.
\<close>

definition format_rule :: "symbol \<Rightarrow> alt list \<Rightarrow> string" where
  "format_rule lhs rhs =
     lhs @ '' -> ''
       @ str_join '' | '' (map (\<lambda>opt. if opt \<noteq> [] then str_join '' '' opt else ''%'') (sort rhs))
       @ '' ;;'' @ [CHR 0x0A]"

definition to_string :: "grammar \<Rightarrow> error + string" where
  "to_string G =
     (case od_get (rules G) (start G) of
        Inl e \<Rightarrow> Inl e
      | Inr rhs \<Rightarrow>
          Inr (format_rule (start G) rhs
               @ concat (map (\<lambda>(lhs, rhs). format_rule lhs rhs)
                          (filter (\<lambda>(lhs, rhs). lhs \<noteq> start G) (sort_key fst (rules G))))))"

section \<open>Properties\<close>

declare nullable_loop.simps [simp del] unit_loop.simps [simp del]
  reachable_loop.simps [simp del] productive_loop.simps [simp del]

subsection \<open>Folds that cannot raise\<close>

lemma fold_err_invariant:
  assumes "I s" and "\<And>x s. x \<in> set xs \<Longrightarrow> I s \<Longrightarrow> \<exists>s'. f x s = Inr s' \<and> I s'"
  shows "\<exists>s'. fold_err f xs s = Inr s' \<and> I s'"
  using assms
proof (induction xs arbitrary: s)
  case Nil
  then show ?case by simp
next
  case (Cons x xs)
  from Cons.prems(2)[of x s] Cons.prems(1) obtain s1 where s1: "f x s = Inr s1" "I s1" by auto
  have "\<exists>s'. fold_err f xs s1 = Inr s' \<and> I s'"
    by (rule Cons.IH[OF s1(2)]) (use Cons.prems(2) in auto)
  with s1 show ?case by simp
qed

lemma map_fst_od_put: "map fst (od_put k g d) = map fst d"
  by (induction d) (auto simp: od_put_def)

lemma od_modify_keys:
  "k \<in> set (map fst d) \<Longrightarrow> \<exists>d'. od_modify k g d = Inr d' \<and> map fst d' = map fst d"
  by (simp add: od_modify_def map_fst_od_put)

lemma map_of_od_put_same: "k \<in> set (map fst d) \<Longrightarrow> map_of (od_put k (\<lambda>_. v) d) k = Some v"
  by (induction d) (auto simp: od_put_def)

lemma map_of_od_set: "map_of (od_set k v d) k = Some v"
proof (cases "k \<in> set (map fst d)")
  case True
  then show ?thesis by (simp add: od_set_def map_of_od_put_same)
next
  case False
  then have "map_of d k = None" by (simp add: map_of_eq_None_iff)
  with False show ?thesis by (simp add: od_set_def map_add_def)
qed

lemma epsilon_variants_keys:
  assumes "lhs \<in> set (map fst nr)"
  shows "\<exists>nr'. epsilon_variants nullable lhs opt nr = Inr nr' \<and> map fst nr' = map fst nr"
  unfolding epsilon_variants_def Let_def
  by (rule fold_err_invariant[where I = "\<lambda>d. map fst d = map fst nr"])
     (use assms in \<open>auto simp: od_modify_def map_fst_od_put\<close>)

lemma epsilon_rhs_keys:
  assumes "lhs \<in> set (map fst nr)"
  shows "\<exists>nr'. fold_err (epsilon_variants nullable lhs) rhs nr = Inr nr' \<and> map fst nr' = map fst nr"
proof (rule fold_err_invariant[where I = "\<lambda>d. map fst d = map fst nr"])
  show "map fst nr = map fst nr" by simp
next
  fix opt :: alt and d :: rule_map
  assume "map fst d = map fst nr"
  with assms have "lhs \<in> set (map fst d)" by simp
  from epsilon_variants_keys[OF this, of nullable opt] \<open>map fst d = map fst nr\<close>
  show "\<exists>s'. epsilon_variants nullable lhs opt d = Inr s' \<and> map fst s' = map fst nr" by auto
qed

lemma epsilon_rules_keys:
  assumes "set (map fst rs) \<subseteq> set (map fst nr)"
  shows "\<exists>nr'. fold_err (\<lambda>(lhs, rhs). fold_err (epsilon_variants nullable lhs) rhs) rs nr = Inr nr'
           \<and> map fst nr' = map fst nr"
proof (rule fold_err_invariant[where I = "\<lambda>d. map fst d = map fst nr"])
  show "map fst nr = map fst nr" by simp
next
  fix r :: "symbol \<times> alt list" and d :: rule_map
  assume r: "r \<in> set rs" and d: "map fst d = map fst nr"
  obtain lhs rhs where lr: "r = (lhs, rhs)" by (cases r)
  from r lr assms d have "lhs \<in> set (map fst d)" by force
  from epsilon_rhs_keys[OF this, of nullable rhs] d
  show "\<exists>s'. (case r of (lhs, rhs) \<Rightarrow> fold_err (epsilon_variants nullable lhs) rhs) d = Inr s'
          \<and> map fst s' = map fst nr"
    by (auto simp: lr)
qed

subsection \<open>Epsilon-rule elimination\<close>

definition epsilon_scenario :: grammar where
  "epsilon_scenario = \<lparr>rules = [(''S'', [[''a'', ''S'', ''b''], []])], start = ''S''\<rparr>"

text \<open>
  C6: for the grammar with start \<open>S\<close> whose alternatives are \<open>(a, S, b)\<close> and the empty
  sequence, \<open>without_epsilon_rules\<close> returns a grammar whose start is \<open>S'\<close>, whose
  nonterminals are \<open>S'\<close> and \<open>S\<close>, whose alternatives for \<open>S'\<close> are exactly the empty
  sequence and \<open>(S,)\<close>, and whose alternatives for \<open>S\<close> are exactly \<open>(a, S, b)\<close> and
  \<open>(a, b)\<close>.
\<close>

theorem without_epsilon_rules_scenario:
  "\<exists>G'. without_epsilon_rules epsilon_scenario = Inr G'
      \<and> start G' = ''S'' @ prime
      \<and> set (nonterminals G') = {''S'' @ prime, ''S''}
      \<and> alts_of G' (''S'' @ prime) = {[], [''S'']}
      \<and> alts_of G' ''S'' = {[''a'', ''S'', ''b''], [''a'', ''b'']}"
proof -
  have "without_epsilon_rules epsilon_scenario =
          Inr \<lparr>rules = [(''S'' @ prime, [[], [''S'']]),
                         (''S'', [[''a'', ''S'', ''b''], [''a'', ''b'']])],
               start = ''S'' @ prime\<rparr>"
    by code_simp
  then show ?thesis by (simp add: nonterminals_def alts_of_def prime_def)
qed

text \<open>
  C10: if the start symbol \<open>S\<close> is nullable and \<open>S'\<close> (the name of \<open>S\<close> followed by a
  prime) is already a nonterminal, \<open>without_epsilon_rules\<close> returns a grammar whose start
  is \<open>S'\<close> and in which the only entry for \<open>S'\<close> holds exactly the empty sequence and
  \<open>(S,)\<close>: whatever alternatives \<open>S'\<close> had are gone, and no freshness check is made.
\<close>

theorem without_epsilon_rules_overwrites_primed_start:
  assumes "start G \<in> set (nullable_nonterminals G)"
      and "start G @ prime \<in> set (nonterminals G)"
  shows "\<exists>G'. without_epsilon_rules G = Inr G'
           \<and> start G' = start G @ prime
           \<and> alts_of G' (start G @ prime) = {[], [start G]}
           \<and> map snd (filter (\<lambda>(k, rhs). k = start G @ prime) (rules G')) = [[[], [start G]]]"
proof -
  let ?nr0 = "map (\<lambda>(lhs, rhs). (lhs, set_discard [] rhs)) (rules G)"
  have "set (map fst (rules G)) \<subseteq> set (map fst ?nr0)" by force
  from epsilon_rules_keys[OF this, of "nullable_nonterminals G"]
  obtain nr1 where nr1:
    "fold_err (\<lambda>(lhs, rhs). fold_err (epsilon_variants (nullable_nonterminals G) lhs) rhs)
       (rules G) ?nr0 = Inr nr1"
    by blast
  have "without_epsilon_rules G
          = Grammar (od_set (start G @ prime) [[], [start G]] nr1) (start G @ prime)"
    using assms(1) nr1 by (simp add: without_epsilon_rules_def)
  then show ?thesis
    by (auto simp: Grammar_def map_of_od_set alts_of_def filter_empty_conv)
qed

definition primed_collision :: grammar where
  "primed_collision =
     \<lparr>rules = [(''S'', [[''a'', ''S''], []]), (''S'' @ prime, [[''b'']])], start = ''S''\<rparr>"

theorem without_epsilon_rules_overwrites_primed_start_witness:
  "start primed_collision \<in> set (nullable_nonterminals primed_collision)
   \<and> start primed_collision @ prime \<in> set (nonterminals primed_collision)
   \<and> [''b''] \<in> alts_of primed_collision (''S'' @ prime)
   \<and> (\<exists>G'. without_epsilon_rules primed_collision = Inr G'
          \<and> start G' = ''S'' @ prime
          \<and> alts_of G' (''S'' @ prime) = {[], [''S'']}
          \<and> map snd (filter (\<lambda>(k, rhs). k = ''S'' @ prime) (rules G')) = [[[], [''S'']]])"
proof -
  have h1: "start primed_collision \<in> set (nullable_nonterminals primed_collision)"
    by code_simp
  have h2: "start primed_collision @ prime \<in> set (nonterminals primed_collision)"
    by code_simp
  have h3: "[''b''] \<in> alts_of primed_collision (''S'' @ prime)"
    by code_simp
  have st: "start primed_collision = ''S''"
    by (simp add: primed_collision_def)
  show ?thesis
    using without_epsilon_rules_overwrites_primed_start[OF h1 h2] h1 h2 h3 unfolding st by simp
qed

subsection \<open>Unit-rule elimination\<close>

text \<open>
  An alternative is a unit alternative when it has length 1 and its symbol is a
  nonterminal, the test \<open>_unit_pairs\<close> itself applies.
\<close>

definition unit_alternative :: "symbol list \<Rightarrow> alt \<Rightarrow> bool" where
  "unit_alternative nts opt = (case opt of [y] \<Rightarrow> y \<in> set nts | _ \<Rightarrow> False)"

definition has_unit_alternative :: "grammar \<Rightarrow> bool" where
  "has_unit_alternative G =
     list_ex (\<lambda>(lhs, rhs). list_ex (unit_alternative (nonterminals G)) rhs) (rules G)"

definition unit_free :: "symbol set \<Rightarrow> rule_map \<Rightarrow> bool" where
  "unit_free K d = (\<forall>k rhs y. (k, rhs) \<in> set d \<and> [y] \<in> set rhs \<longrightarrow> y \<notin> K)"

lemma unit_alternative_iff: "unit_alternative nts opt \<longleftrightarrow> (\<exists>y. opt = [y] \<and> y \<in> set nts)"
  by (simp add: unit_alternative_def split: list.splits)

lemma has_unit_alternative_iff:
  "has_unit_alternative G \<longleftrightarrow> \<not> unit_free (set (nonterminals G)) (rules G)"
proof
  assume "has_unit_alternative G"
  then obtain lhs rhs opt where "(lhs, rhs) \<in> set (rules G)" "opt \<in> set rhs"
      "unit_alternative (nonterminals G) opt"
    unfolding has_unit_alternative_def list_ex_iff by blast
  then show "\<not> unit_free (set (nonterminals G)) (rules G)"
    unfolding unit_free_def unit_alternative_iff by blast
next
  assume "\<not> unit_free (set (nonterminals G)) (rules G)"
  then obtain k rhs y where "(k, rhs) \<in> set (rules G)" "[y] \<in> set rhs"
      "y \<in> set (nonterminals G)"
    unfolding unit_free_def by blast
  then show "has_unit_alternative G"
    unfolding has_unit_alternative_def list_ex_iff unit_alternative_iff by blast
qed

lemma set_direct_unit_pairs:
  "set (direct_unit_pairs G)
     = {(lhs, y) | lhs y rhs. (lhs, rhs) \<in> set (rules G) \<and> [y] \<in> set rhs
                               \<and> y \<in> set (nonterminals G)}"
  unfolding direct_unit_pairs_def
  by (auto split: list.splits if_splits)

lemma unit_loop_bounds:
  "set b \<subseteq> set (unit_loop a b) \<and> set (unit_loop a b) \<subseteq> fst ` set b \<times> snd ` set b"
proof (induction a b rule: unit_loop.induct)
  case (1 a b)
  show ?case
  proof (cases "set_eq a b")
    case True
    then have ab: "set a = set b" by (simp add: set_eq_sets)
    have eq: "unit_loop a b = a" using True by (subst unit_loop.simps) simp
    have "set b \<subseteq> fst ` set b \<times> snd ` set b"
    proof
      fix p assume "p \<in> set b"
      then show "p \<in> fst ` set b \<times> snd ` set b" by (auto simp: mem_Times_iff)
    qed
    with ab show ?thesis unfolding eq by simp
  next
    case False
    let ?p = "unit_pass b b"
    have f: "fst ` set ?p = fst ` set b" by (force simp: set_unit_pass)
    have s: "snd ` set ?p = snd ` set b" by (force simp: set_unit_pass)
    have mono: "set b \<subseteq> set ?p" by (auto simp: set_unit_pass)
    from 1[OF False] have ih: "set ?p \<subseteq> set (unit_loop b ?p)"
        "set (unit_loop b ?p) \<subseteq> fst ` set b \<times> snd ` set b"
      unfolding f s by auto
    have eq: "unit_loop a b = unit_loop b ?p" using False by (subst unit_loop.simps) simp
    show ?thesis unfolding eq using ih mono by blast
  qed
qed

lemma unit_pairs_keys:
  assumes "(x, y) \<in> set (unit_pairs G)"
  shows "x \<in> set (nonterminals G)" and "y \<in> set (nonterminals G)"
proof -
  from assms unit_loop_bounds[where b = "direct_unit_pairs G" and a = "[]"]
  have "(x, y) \<in> fst ` set (direct_unit_pairs G) \<times> snd ` set (direct_unit_pairs G)"
    unfolding unit_pairs_def by blast
  then show "x \<in> set (nonterminals G)" and "y \<in> set (nonterminals G)"
    unfolding set_direct_unit_pairs nonterminals_def by force+
qed

lemma direct_in_unit_pairs: "set (direct_unit_pairs G) \<subseteq> set (unit_pairs G)"
  unfolding unit_pairs_def using unit_loop_bounds[where b = "direct_unit_pairs G" and a = "[]"] by blast

text \<open>
  The first loop of \<open>without_unit_rules\<close>: afterwards every right-hand side is a subset
  of the old one, without the alternative \<open>(y,)\<close> for each processed pair \<open>(k, y)\<close>.
\<close>

definition discarded :: "unit_pair list \<Rightarrow> rule_map \<Rightarrow> rule_map \<Rightarrow> bool" where
  "discarded ps d d' \<longleftrightarrow>
     map fst d' = map fst d \<and>
     (\<forall>k rhs'. (k, rhs') \<in> set d' \<longrightarrow>
        (\<exists>rhs. (k, rhs) \<in> set d \<and> set rhs' \<subseteq> set rhs
               \<and> (\<forall>y. (k, y) \<in> set ps \<longrightarrow> [y] \<notin> set rhs')))"

lemma od_put_entry:
  "(k', rhs') \<in> set (od_put k g d) \<Longrightarrow>
     \<exists>rhs. (k', rhs) \<in> set d \<and> rhs' = (if k' = k then g rhs else rhs)"
  unfolding od_put_def by (auto split: if_splits)

lemma removal_pass:
  assumes "\<forall>(x, y) \<in> set ps. x \<in> set (map fst d)"
  shows "\<exists>d'. fold_err (\<lambda>(x, y). od_modify x (set_discard [y])) ps d = Inr d' \<and> discarded ps d d'"
  using assms
proof (induction ps arbitrary: d)
  case Nil
  show ?case by (simp add: discarded_def) blast
next
  case (Cons p ps)
  obtain x y where p: "p = (x, y)" by (cases p)
  let ?d1 = "od_put x (set_discard [y]) d"
  from Cons.prems p have xk: "x \<in> set (map fst d)" by auto
  have k1: "map fst ?d1 = map fst d" by (rule map_fst_od_put)
  have "\<forall>(x, y) \<in> set ps. x \<in> set (map fst ?d1)" using Cons.prems unfolding k1 by auto
  from Cons.IH[OF this] obtain d' where
    d': "fold_err (\<lambda>(x, y). od_modify x (set_discard [y])) ps ?d1 = Inr d'"
    and dis: "discarded ps ?d1 d'" by blast
  have run: "fold_err (\<lambda>(x, y). od_modify x (set_discard [y])) (p # ps) d = Inr d'"
    using xk d' by (simp add: p od_modify_def)
  have "discarded (p # ps) d d'"
    unfolding discarded_def
  proof (intro conjI allI impI)
    show "map fst d' = map fst d" using dis k1 by (simp add: discarded_def)
  next
    fix k rhs'
    assume "(k, rhs') \<in> set d'"
    with dis obtain rhs1 where r1: "(k, rhs1) \<in> set ?d1" "set rhs' \<subseteq> set rhs1"
      "\<forall>y. (k, y) \<in> set ps \<longrightarrow> [y] \<notin> set rhs'"
      unfolding discarded_def by blast
    from od_put_entry[OF r1(1)] obtain rhs where
      r: "(k, rhs) \<in> set d" "rhs1 = (if k = x then set_discard [y] rhs else rhs)" by blast
    have sub: "set rhs1 \<subseteq> set rhs" using r(2) by (auto simp: set_discard_def)
    have "k = x \<Longrightarrow> [y] \<notin> set rhs1" using r(2) by (simp add: set_discard_def)
    then have "\<forall>y'. (k, y') \<in> set (p # ps) \<longrightarrow> [y'] \<notin> set rhs'"
      using r1(2,3) p by auto
    with r(1) sub r1(2)
    show "\<exists>rhs. (k, rhs) \<in> set d \<and> set rhs' \<subseteq> set rhs
            \<and> (\<forall>y. (k, y) \<in> set (p # ps) \<longrightarrow> [y] \<notin> set rhs')"
      by blast
  qed
  with run show ?case by blast
qed

lemma removal_unit_free:
  assumes dis: "discarded ps d d'"
      and direct: "\<And>k rhs y. (k, rhs) \<in> set d \<Longrightarrow> [y] \<in> set rhs \<Longrightarrow> y \<in> K \<Longrightarrow> (k, y) \<in> set ps"
  shows "unit_free K d'"
  unfolding unit_free_def
proof (intro allI impI notI)
  fix k rhs' y
  assume a: "(k, rhs') \<in> set d' \<and> [y] \<in> set rhs'" and yK: "y \<in> K"
  from a dis obtain rhs where r: "(k, rhs) \<in> set d" "set rhs' \<subseteq> set rhs"
    "\<forall>y. (k, y) \<in> set ps \<longrightarrow> [y] \<notin> set rhs'"
    unfolding discarded_def by blast
  from a r(2) have "[y] \<in> set rhs" by auto
  from direct[OF r(1) this yK] r(3) a show False by blast
qed

text \<open>
  The second loop only unites right-hand sides that are already free of one-nonterminal
  alternatives, in whatever order the pairs come.
\<close>

lemma absorb_step:
  assumes x: "x \<in> set (map fst d)" and y: "y \<in> set (map fst d)" and uf: "unit_free K d"
  shows "\<exists>d'. absorb (x, y) d = Inr d' \<and> map fst d' = map fst d \<and> unit_free K d'"
proof -
  from x obtain ax where ax: "map_of d x = Some ax"
    by (metis map_of_eq_None_iff not_Some_eq set_map)
  from y obtain ay where ay: "map_of d y = Some ay"
    by (metis map_of_eq_None_iff not_Some_eq set_map)
  let ?d' = "od_put x (\<lambda>_. set_update ax ay) d"
  have run: "absorb (x, y) d = Inr ?d'"
    using ax ay x by (simp add: absorb_def od_get_def od_set_def)
  have inx: "(x, ax) \<in> set d" and iny: "(y, ay) \<in> set d"
    using ax ay by (auto dest: map_of_SomeD)
  have "unit_free K ?d'"
    unfolding unit_free_def
  proof (intro allI impI)
    fix k rhs' z
    assume a: "(k, rhs') \<in> set ?d' \<and> [z] \<in> set rhs'"
    then obtain rhs where r: "(k, rhs) \<in> set d"
      "rhs' = (if k = x then set_update ax ay else rhs)"
      using od_put_entry[of k rhs' x "\<lambda>_. set_update ax ay" d] by blast
    show "z \<notin> K"
    proof (cases "k = x")
      case True
      with a r have "[z] \<in> set ax \<or> [z] \<in> set ay" by (auto simp: set_set_update)
      with inx iny uf show ?thesis unfolding unit_free_def by blast
    next
      case False
      with a r uf show ?thesis unfolding unit_free_def by auto
    qed
  qed
  with run show ?thesis by (simp add: map_fst_od_put)
qed

lemma absorption_pass:
  assumes keys: "\<forall>(x, y) \<in> set ps. x \<in> set (map fst d) \<and> y \<in> set (map fst d)"
      and uf: "unit_free K d"
  shows "\<exists>d'. fold_err absorb ps d = Inr d' \<and> map fst d' = map fst d \<and> unit_free K d'"
proof (rule fold_err_invariant[where I = "\<lambda>d'. map fst d' = map fst d \<and> unit_free K d'"])
  show "map fst d = map fst d \<and> unit_free K d" using uf by simp
next
  fix p :: unit_pair and e :: rule_map
  assume p: "p \<in> set ps" and inv: "map fst e = map fst d \<and> unit_free K e"
  obtain x y where xy: "p = (x, y)" by (cases p)
  from keys p xy inv have "x \<in> set (map fst e)" "y \<in> set (map fst e)" by auto
  from absorb_step[OF this, of K] inv
  show "\<exists>s'. absorb p e = Inr s' \<and> map fst s' = map fst d \<and> unit_free K s'"
    unfolding xy by auto
qed

lemma Grammar_unit_free:
  assumes "s \<in> set (map fst d)" and "unit_free (set (map fst d)) d"
  shows "\<exists>G'. Grammar d s = Inr G' \<and> start G' = s
           \<and> set (nonterminals G') = set (map fst d)
           \<and> unit_free (set (nonterminals G')) (rules G')"
proof -
  from assms(1) obtain v where v: "map_of d s = Some v"
    by (metis map_of_eq_None_iff not_Some_eq set_map)
  then have inv: "(s, v) \<in> set d" by (rule map_of_SomeD)
  let ?G = "\<lparr>rules = (s, v) # filter (\<lambda>(k, _). k \<noteq> s) d, start = s\<rparr>"
  have run: "Grammar d s = Inr ?G" using v by (simp add: Grammar_def)
  have keys: "set (nonterminals ?G) = set (map fst d)"
    using inv by (force simp: nonterminals_def)
  have "unit_free (set (map fst d)) (rules ?G)"
    using assms(2) inv unfolding unit_free_def by auto
  with run keys show ?thesis by simp
qed

text \<open>
  C5: for every grammar whose start symbol is a key of its rules, and for every order in
  which the removal loop and the absorption loop run through the unit pairs,
  \<open>without_unit_rules\<close> returns a grammar with the same start symbol and the same
  nonterminals that has no alternative of length 1 whose symbol is a nonterminal of the
  result.
\<close>

theorem without_unit_rules_no_unit_alternative:
  assumes wf: "start G \<in> set (nonterminals G)"
      and o1: "set order1 = set (unit_pairs G)"
      and o2: "set order2 = set (unit_pairs G)"
  shows "\<exists>G'. without_unit_rules_in order1 order2 G = Inr G'
           \<and> start G' = start G
           \<and> set (nonterminals G') = set (nonterminals G)
           \<and> \<not> has_unit_alternative G'"
proof -
  let ?K = "set (map fst (rules G))"
  have k1: "\<forall>(x, y) \<in> set order1. x \<in> set (map fst (rules G))"
    using unit_pairs_keys(1)[of _ _ G] o1 by (auto simp: nonterminals_def)
  from removal_pass[OF k1] obtain d1 where
    d1: "fold_err (\<lambda>(x, y). od_modify x (set_discard [y])) order1 (rules G) = Inr d1"
    and dis: "discarded order1 (rules G) d1" by blast
  have keys1: "map fst d1 = map fst (rules G)" using dis by (simp add: discarded_def)
  have uf1: "unit_free ?K d1"
  proof (rule removal_unit_free[OF dis])
    fix k rhs y
    assume "(k, rhs) \<in> set (rules G)" "[y] \<in> set rhs" "y \<in> ?K"
    then have "(k, y) \<in> set (direct_unit_pairs G)"
      unfolding set_direct_unit_pairs nonterminals_def by blast
    with direct_in_unit_pairs[of G] o1 show "(k, y) \<in> set order1" by blast
  qed
  have k2: "\<forall>(x, y) \<in> set order2. x \<in> set (map fst d1) \<and> y \<in> set (map fst d1)"
    using unit_pairs_keys[of _ _ G] o2 unfolding keys1 by (auto simp: nonterminals_def)
  from absorption_pass[OF k2 uf1] obtain d2 where
    d2: "fold_err absorb order2 d1 = Inr d2" and keys2: "map fst d2 = map fst d1"
    and uf2: "unit_free ?K d2" by blast
  have s2: "start G \<in> set (map fst d2)" using wf keys1 keys2 by (simp add: nonterminals_def)
  have uf2': "unit_free (set (map fst d2)) d2" using uf2 keys1 keys2 by simp
  from Grammar_unit_free[OF s2 uf2'] obtain G' where
    G': "Grammar d2 (start G) = Inr G'" "start G' = start G"
        "set (nonterminals G') = set (map fst d2)"
        "unit_free (set (nonterminals G')) (rules G')" by blast
  have "without_unit_rules_in order1 order2 G = Inr G'"
    using d1 d2 G'(1) by (simp add: without_unit_rules_in_def)
  with G' keys1 keys2 show ?thesis
    by (simp add: has_unit_alternative_iff nonterminals_def)
qed

definition unit_chain :: grammar where
  "unit_chain =
     \<lparr>rules = [(''A'', [[''B''], [''a'']]), (''B'', [[''C''], [''b'']]), (''C'', [[''c'']])],
      start = ''A''\<rparr>"

theorem without_unit_rules_no_unit_alternative_witness:
  "start unit_chain \<in> set (nonterminals unit_chain)
   \<and> set [(''A'', ''C''), (''B'', ''C''), (''A'', ''B'')] = set (unit_pairs unit_chain)
   \<and> set [(''A'', ''B''), (''A'', ''C''), (''B'', ''C'')] = set (unit_pairs unit_chain)
   \<and> (\<exists>G'. without_unit_rules_in [(''A'', ''C''), (''B'', ''C''), (''A'', ''B'')]
                [(''A'', ''B''), (''A'', ''C''), (''B'', ''C'')] unit_chain = Inr G'
          \<and> start G' = start unit_chain
          \<and> set (nonterminals G') = set (nonterminals unit_chain)
          \<and> \<not> has_unit_alternative G')"
proof -
  have h1: "start unit_chain \<in> set (nonterminals unit_chain)"
    by code_simp
  have h2: "set [(''A'', ''C''), (''B'', ''C''), (''A'', ''B'')] = set (unit_pairs unit_chain)"
    by code_simp
  have h3: "set [(''A'', ''B''), (''A'', ''C''), (''B'', ''C'')] = set (unit_pairs unit_chain)"
    by code_simp
  show ?thesis
    using without_unit_rules_no_unit_alternative[OF h1 h2 h3] h1 h2 h3 by blast
qed

subsection \<open>Useless-symbol elimination and the pipelines\<close>

text \<open>
  \<open>with_productive_symbols\<close> never returns a grammar. Either \<open>_productive_symbols\<close>
  reaches \<open>new_productive.add\<close> and raises, or it returns the terminals (or the empty
  set) unchanged; no key of the rules is a terminal, so \<open>with_symbols\<close> then keeps no key
  and the constructor raises \<open>KeyError\<close> for the start symbol.
\<close>

lemma terminals_not_keys: "x \<in> set (terminals G) \<Longrightarrow> x \<notin> set (map fst (rules G))"
  by (simp add: terminals_def)

lemma with_symbols_no_key:
  assumes "\<And>lhs. lhs \<in> set (map fst (rules G)) \<Longrightarrow> lhs \<notin> set symbols"
  shows "with_symbols G symbols = Inl (KeyError (Some (start G)))"
proof -
  have skip: "foldl (\<lambda>new_rules (lhs, rhs).
           if lhs \<notin> set symbols then new_rules
           else foldl (\<lambda>new_rules opt.
                   if stringof opt symbols then dd_add lhs opt new_rules else new_rules)
                  new_rules rhs) acc rs = acc"
    if "\<And>lhs. lhs \<in> set (map fst rs) \<Longrightarrow> lhs \<notin> set symbols" for acc and rs :: rule_map
    using that by (induction rs arbitrary: acc) force+
  show ?thesis
    unfolding with_symbols_def using skip[OF assms] by (simp add: Grammar_def)
qed

lemma productive_symbols_cases:
  "(\<exists>e. productive_symbols G = Inl e) \<or> productive_symbols G = Inr []
     \<or> productive_symbols G = Inr (terminals G)"
proof (cases "set_eq (terminals G) []")
  case True
  then show ?thesis unfolding productive_symbols_def by (subst productive_loop.simps) simp
next
  case False
  show ?thesis
  proof (cases "productive_pass (rules G) (terminals G) (terminals G)")
    case (Inl e)
    with False show ?thesis
      unfolding productive_symbols_def by (subst productive_loop.simps) simp
  next
    case (Inr new)
    then have n: "new = terminals G" by (rule productive_pass_same)
    have "productive_loop (rules G) (terminals G) (terminals G) = Inr (terminals G)"
      by (subst productive_loop.simps) (simp add: set_eq_sets)
    with Inr n False show ?thesis
      unfolding productive_symbols_def by (subst productive_loop.simps) simp
  qed
qed


lemma with_productive_symbols_raises: "\<exists>e. with_productive_symbols G = Inl e"
proof -
  consider (err) e where "productive_symbols G = Inl e"
    | (none) "productive_symbols G = Inr []"
    | (terms) "productive_symbols G = Inr (terminals G)"
    using productive_symbols_cases[of G] by blast
  then show ?thesis
  proof cases
    case err
    then show ?thesis by (simp add: with_productive_symbols_def)
  next
    case none
    have "with_symbols G [] = Inl (KeyError (Some (start G)))"
      by (rule with_symbols_no_key) simp
    with none show ?thesis by (simp add: with_productive_symbols_def)
  next
    case terms
    have "with_symbols G (terminals G) = Inl (KeyError (Some (start G)))"
      by (rule with_symbols_no_key) (use terminals_not_keys in blast)
    with terms show ?thesis by (simp add: with_productive_symbols_def)
  qed
qed

lemma Pipeline_single: "Pipeline [a] g = a g"
  by (cases "a g") (simp_all add: Pipeline_def)

text \<open>
  The useful-symbols step (productive filter, then reachable filter) starts with
  \<open>with_productive_symbols\<close> and so raises on every grammar as well: there is no grammar
  on which it returns a result.
\<close>

lemma with_useful_symbols_raises: "\<exists>e. with_useful_symbols G = Inl e"
proof -
  obtain e where "with_productive_symbols G = Inl e"
    using with_productive_symbols_raises by blast
  then show ?thesis
    by (simp add: with_useful_symbols_def Pipeline_def Pipeline_single)
qed

definition cnf_scenario :: grammar where
  "cnf_scenario = \<lparr>rules = [(''S'', [[''a'', ''S'', ''a''], [''b'']])], start = ''S''\<rparr>"


text \<open>
  C1: the pipeline \<open>chomsky_normal_form\<close> raises on every grammar, since its third step
  is the useful-symbols step; on the grammar \<open>S -> a S a | b\<close> the exception is the
  \<open>AttributeError\<close> of \<open>_productive_symbols\<close>. No result exists whose alternatives
  could have the shape of Chomsky normal form.
\<close>

theorem chomsky_normal_form_raises:
  "(\<exists>e. chomsky_normal_form G = Inl e)
   \<and> chomsky_normal_form cnf_scenario = Inl AttributeError"
proof
  have useful: "\<exists>e. Pipeline [Pipeline [with_productive_symbols],
                     Pipeline [with_reachable_symbols]] H = Inl e" for H
  proof -
    obtain e where "with_productive_symbols H = Inl e"
      using with_productive_symbols_raises by blast
    then show ?thesis by (simp add: Pipeline_def Pipeline_single)
  qed
  show "\<exists>e. chomsky_normal_form G = Inl e"
  proof (cases "without_epsilon_rules G")
    case (Inl e)
    then show ?thesis
      by (simp add: chomsky_normal_form_def Pipeline_def[of "_ # _"] Pipeline_single)
  next
    case G1: (Inr G1)
    show ?thesis
    proof (cases "without_unit_rules G1")
      case (Inl e)
      with G1 show ?thesis
        by (simp add: chomsky_normal_form_def Pipeline_def[of "_ # _"] Pipeline_single)
    next
      case (Inr G2)
      from useful[of G2] obtain e where "with_useful_symbols G2 = Inl e"
        by (auto simp: with_useful_symbols_def)
      with G1 Inr show ?thesis
        by (simp add: chomsky_normal_form_def Pipeline_def[of "_ # _"] Pipeline_single)
    qed
  qed
next
  show "chomsky_normal_form cnf_scenario = Inl AttributeError"
    by code_simp
qed

subsection \<open>Rewrite operations that raise\<close>

definition loop_grammar :: grammar where
  "loop_grammar = \<lparr>rules = [(''A'', [[''A'']])], start = ''A''\<rparr>"

definition empty_start :: grammar where
  "empty_start = \<lparr>rules = [(''A'', [])], start = ''A''\<rparr>"

definition unproductive_start :: grammar where
  "unproductive_start = \<lparr>rules = [(''S'', [[''a'', ''S'']])], start = ''S''\<rparr>"

definition one_terminal :: grammar where
  "one_terminal = \<lparr>rules = [(''S'', [[''a'']])], start = ''S''\<rparr>"

text \<open>
  C2: four of the six rewrite operations raise on grammars the constructor accepts.
  \<open>without_unit_rules\<close> turns \<open>A -> A\<close> into a grammar whose start symbol has an empty
  set of alternatives; on that grammar \<open>with_reachable_symbols\<close>, \<open>with_pair_rules\<close> and
  \<open>with_unit_terminals\<close> build a mapping without the start symbol and the constructor
  raises \<open>KeyError\<close>. \<open>with_productive_symbols\<close> raises \<open>KeyError\<close> when the start
  symbol is unproductive and \<open>AttributeError\<close> on \<open>S -> a\<close>.
\<close>

theorem rewrite_operations_raise:
  "without_unit_rules loop_grammar = Inr empty_start
   \<and> with_reachable_symbols empty_start = Inl (KeyError (Some ''A''))
   \<and> with_pair_rules empty_start = Inl (KeyError (Some ''A''))
   \<and> with_unit_terminals empty_start = Inl (KeyError (Some ''A''))
   \<and> with_productive_symbols unproductive_start = Inl (KeyError (Some ''S''))
   \<and> with_productive_symbols one_terminal = Inl AttributeError"
  by code_simp

subsection \<open>Pair rules and unit terminals\<close>

definition three_symbols :: grammar where
  "three_symbols = \<lparr>rules = [(''S'', [[''a'', ''b'', ''c'']])], start = ''S''\<rparr>"

definition four_symbols :: grammar where
  "four_symbols = \<lparr>rules = [(''S'', [[''a'', ''b'', ''c'', ''d'']])], start = ''S''\<rparr>"

text \<open>
  C3: for the alternative \<open>(a, b, c)\<close> of \<open>S\<close>, \<open>with_pair_rules\<close> emits
  \<open>S -> (a, S_0:1)\<close> and attaches the closing pair \<open>(b, c)\<close> to \<open>S_0:0\<close>: the helper
  \<open>S_0:1\<close> of the right-hand side is no left-hand side. For \<open>(a, b, c, d)\<close> the closing
  pair \<open>(c, d)\<close> is attached to \<open>S_0:1\<close>, next to \<open>(b, S_0:2)\<close>, and \<open>S_0:2\<close> is no
  left-hand side. The closing rule is attached one helper too early.
\<close>

theorem with_pair_rules_chain_off_by_one:
  "with_pair_rules three_symbols
     = Inr \<lparr>rules = [(''S'', [[''a'', ''S_0:1'']]), (''S_0:0'', [[''b'', ''c'']])],
            start = ''S''\<rparr>
   \<and> with_pair_rules four_symbols
     = Inr \<lparr>rules = [(''S'', [[''a'', ''S_0:1'']]),
                      (''S_0:1'', [[''b'', ''S_0:2''], [''c'', ''d'']])],
            start = ''S''\<rparr>"
  by code_simp

text \<open>
  C4: \<open>with_unit_terminals\<close> rewrites the bare single terminal alternative \<open>(a,)\<close> of
  \<open>S\<close> to \<open>(a#,)\<close>: the replacement is applied to alternatives of every length.
\<close>

theorem with_unit_terminals_rewrites_single_terminal:
  "with_unit_terminals one_terminal
     = Inr \<lparr>rules = [(''S'', [[''a#'']]), (''a#'', [[''a'']])], start = ''S''\<rparr>"
  by code_simp

subsection \<open>Textual notation\<close>

definition two_symbols :: grammar where
  "two_symbols = \<lparr>rules = [(''S'', [[''a'', ''b'']])], start = ''S''\<rparr>"

text \<open>
  C7: the grammar parsed from \<open>S -> ab\<close> has the alternative \<open>(a, b)\<close>; \<open>to_string\<close>
  prints it with a space between the symbols, and \<open>from_string\<close> reads that space as a
  symbol: parsing the serialization gives the alternative \<open>(a, ' ', b)\<close>, not the
  grammar that was serialized.
\<close>

theorem round_trip_inserts_spaces:
  "from_string ''S -> ab'' = Inr two_symbols
   \<and> to_string two_symbols = Inr (''S -> a b ;;'' @ [CHR 0x0A])
   \<and> from_string (''S -> a b ;;'' @ [CHR 0x0A])
       = Inr \<lparr>rules = [(''S'', [[''a'', '' '', ''b'']])], start = ''S''\<rparr>"
  by code_simp

text \<open>
  C9: the record \<open>S ->\<close> contains the separator (\<open>partition\<close> finds it), yet
  \<open>from_string\<close> raises the \<open>ValueError\<close> whose message says that it contains none; and
  on the empty text, which has no record at all, \<open>from_string\<close> raises \<open>KeyError\<close>.
\<close>

theorem from_string_raises_with_separator:
  "str_partition ''->'' ''S ->'' = (''S '', ''->'', [])
   \<and> from_string ''S ->''
       = Inl (ValueError (''Line 0 <<< S -> >>> contains no '' @ [CHR 0x22] @ ''->'' @ [CHR 0x22]))
   \<and> from_string [] = Inl (KeyError None)"
  by code_simp

end
